theory Spec2Isabelle
  imports
    Main
    "HOL-Library.Word"
    "HOL-Library.Sublist"
    "HOL-Library.Multiset"
    "HOL-Library.Char_ord"
    "HOL-Library.List_Lexorder"
begin

section \<open>JSON values\<close>

text \<open>
  The value tree of \<^verbatim>\<open>json/json.h\<close>: \<^verbatim>\<open>json::value\<close> with its seven concrete
  classes. A \<^verbatim>\<open>json::string\<close> is represented by the character sequence that
  \<^verbatim>\<open>to_std_string()\<close> returns, an object by its properties in the order in which the
  object keeps them, an array by the list of its elements. Equal values have equal trees:
  \<^verbatim>\<open>operator==\<close> on values is equality of the trees.
\<close>

datatype json =
    JString string
  | JNumber int
  | JObject "(string \<times> json) list"
  | JArray "json list"
  | JTrue
  | JFalse
  | JNull

text \<open>
  \<^verbatim>\<open>json::array::array(const array& other, std::size_t number_to_copy, std::size_t start_idx)\<close>
  is declared in \<^verbatim>\<open>json.h\<close> as "constructs an array by copying the first references
  starting at start_idx from an other array"; its body is in the absent \<^verbatim>\<open>json.cpp\<close>.
\<close>

definition array_copy :: "json list \<Rightarrow> nat \<Rightarrow> nat \<Rightarrow> json list" where
  "array_copy other number_to_copy start_idx = take number_to_copy (drop start_idx other)"

subsection \<open>A compact serializer\<close>

text \<open>
  The serializer (\<^verbatim>\<open>value::size()\<close>, \<^verbatim>\<open>tools::as_string\<close>) and the delta procedure
  (\<^verbatim>\<open>json/delta.h\<close>) are not part of the sources at hand, so the operations below take
  them as parameters. \<open>json_text\<close> is one serializer, the compact text in which a
  quotation mark and a backslash inside a string are escaped by a backslash, and
  \<open>whole_value_delta\<close> one delta procedure, which replaces the whole value when the new
  value fits the budget; they instantiate the parameters where an operation is evaluated on
  concrete values.
\<close>

definition escape :: "string \<Rightarrow> string" where
  "escape s =
     concat (map (\<lambda>c. if c = CHR 0x22 \<or> c = CHR 0x5C then [CHR 0x5C, c] else [c]) s)"

fun digit_chars :: "nat \<Rightarrow> string" where
  "digit_chars n =
     (if n < 10 then [char_of (48 + n)]
      else digit_chars (n div 10) @ [char_of (48 + n mod 10)])"

fun join_with :: "string \<Rightarrow> string list \<Rightarrow> string" where
  "join_with sep [] = []"
| "join_with sep [x] = x"
| "join_with sep (x # y # ys) = x @ sep @ join_with sep (y # ys)"

fun json_text :: "json \<Rightarrow> string" where
  "json_text (JString s) = [CHR 0x22] @ escape s @ [CHR 0x22]"
| "json_text (JNumber i) = (if i < 0 then ''-'' else []) @ digit_chars (nat \<bar>i\<bar>)"
| "json_text (JObject kvs) =
     ''{'' @ join_with '','' (map (\<lambda>(k, v). [CHR 0x22] @ escape k @ [CHR 0x22] @ '':'' @ json_text v)
                           kvs)
       @ ''}''"
| "json_text (JArray vs) = ''['' @ join_with '','' (map json_text vs) @ '']''"
| "json_text JTrue = ''true''"
| "json_text JFalse = ''false''"
| "json_text JNull = ''null''"

definition json_size :: "json \<Rightarrow> nat" where
  "json_size v = length (json_text v)"

definition whole_value_delta :: "json \<Rightarrow> json \<Rightarrow> nat \<Rightarrow> bool \<times> json" where
  "whole_value_delta old_value new_value max_size =
     (json_size new_value \<le> max_size, new_value)"

section \<open>Node versions\<close>

text \<open>
  \<^verbatim>\<open>pubsub::node_version\<close> (\<^verbatim>\<open>pubsub/node.cpp\<close>). The counter \<^verbatim>\<open>version_\<close> is a
  \<^verbatim>\<open>boost::uint_fast32_t\<close>, an unsigned integer whose width the platform chooses: 64 bits
  with glibc on x86-64, 32 bits elsewhere. A version is therefore a word of any length
  \<open>'a\<close>. \<^verbatim>\<open>operator-\<close> converts both counters to \<^verbatim>\<open>boost::int_fast64_t\<close> (a 64-bit
  counter from \<open>2\<^sup>6\<^sup>3\<close> up becomes negative), subtracts, and narrows the distance to
  \<^verbatim>\<open>int\<close> after the two range checks.
\<close>

definition INT_MAX :: "64 word" where
  "INT_MAX = 2147483647"

definition INT_MIN :: "64 word" where
  "INT_MIN = - 2147483648"

definition node_version_minus :: "'a::len word \<Rightarrow> 'a word \<Rightarrow> 32 word" where
  "node_version_minus lhs rhs =
     (let distance = (ucast lhs :: 64 word) - (ucast rhs :: 64 word)
      in if 0 <s distance \<and> INT_MAX <s distance then ucast INT_MAX
         else if distance <s 0 \<and> distance <s INT_MIN then ucast INT_MIN
         else ucast distance)"

text \<open>
  \<^verbatim>\<open>operator-(node_version start_version, unsigned decrement)\<close>, that is
  \<^verbatim>\<open>version_ -= dec\<close>: the counter wraps below zero.
\<close>

definition node_version_decrement :: "'a::len word \<Rightarrow> 32 word \<Rightarrow> 'a word" where
  "node_version_decrement start_version decrement = start_version - ucast decrement"

section \<open>Nodes\<close>

text \<open>
  \<^verbatim>\<open>pubsub::node\<close> with its members \<^verbatim>\<open>data_\<close>, \<^verbatim>\<open>version_\<close> and \<^verbatim>\<open>updates_\<close>: the
  current value, the current version and the array of stored deltas, oldest first.
\<close>

record 'v node =
  data :: json
  version :: 'v
  updates :: "json list"

text \<open>
  \<^verbatim>\<open>static_cast<int>(updates_.length())\<close>: a \<^verbatim>\<open>std::size_t\<close> narrowed to \<^verbatim>\<open>int\<close>; and
  the same length passed for an \<^verbatim>\<open>unsigned\<close> parameter.
\<close>

definition size_t_to_int :: "nat \<Rightarrow> 32 word" where
  "size_t_to_int n = word_of_nat n"

definition size_t_to_unsigned :: "nat \<Rightarrow> 32 word" where
  "size_t_to_unsigned n = word_of_nat n"

text \<open>\<^verbatim>\<open>node::oldest_version\<close>: \<^verbatim>\<open>version_ - updates_.length()\<close>.\<close>

definition oldest_version :: "'a::len word node \<Rightarrow> 'a word" where
  "oldest_version n =
     node_version_decrement (version n) (size_t_to_unsigned (length (updates n)))"

text \<open>
  \<^verbatim>\<open>node::get_update_from\<close>. Past the guard \<open>distance\<close> is positive and at most the
  length of the ring, so neither its conversion to \<^verbatim>\<open>std::size_t\<close> nor the subtraction
  \<^verbatim>\<open>updates_.length() - distance\<close> wraps.
\<close>

definition get_update_from :: "'a::len word node \<Rightarrow> 'a word \<Rightarrow> bool \<times> json" where
  "get_update_from n known_version =
     (let distance = node_version_minus (version n) known_version
      in if distance \<le>s 0 \<or> size_t_to_int (length (updates n)) <s distance
         then (False, data n)
         else (True, JArray (array_copy (updates n) (nat (sint distance))
                               (length (updates n) - nat (sint distance)))))"

text \<open>
  \<^verbatim>\<open>node::remove_old_versions\<close>: while the ring is not empty and its serialized size
  exceeds \<open>max_size\<close>, erase the oldest delta.
\<close>

fun remove_old_versions :: "(json \<Rightarrow> nat) \<Rightarrow> nat \<Rightarrow> json list \<Rightarrow> json list" where
  "remove_old_versions size_of max_size [] = []"
| "remove_old_versions size_of max_size (u # us) =
     (if max_size < size_of (JArray (u # us)) then remove_old_versions size_of max_size us
      else u # us)"

text \<open>
  \<^verbatim>\<open>node::update\<close>, returning the flag and the node after the call. \<open>delta\<close> and
  \<open>size_of\<close> stand for \<^verbatim>\<open>json::delta\<close> and \<^verbatim>\<open>json::value::size\<close>. The budget is
  computed on natural numbers; the comparison with the current value comes first and does
  not depend on it.
\<close>

definition update ::
  "(json \<Rightarrow> json \<Rightarrow> nat \<Rightarrow> bool \<times> json) \<Rightarrow> (json \<Rightarrow> nat) \<Rightarrow> json \<Rightarrow> nat \<Rightarrow> 'a::len word node
     \<Rightarrow> bool \<times> 'a word node"
where
  "update delta size_of new_data keep_update_size_percent n =
     (if new_data = data n then (False, n)
      else
        let max_size = size_of new_data * keep_update_size_percent div 100;
            stored =
              (if max_size \<noteq> 0
               then (case delta (data n) new_data max_size of
                       (True, instruction) \<Rightarrow> updates n @ [instruction]
                     | (False, _) \<Rightarrow> updates n)
               else updates n)
        in (True, \<lparr> data = new_data,
                    version = version n + 1,
                    updates = remove_old_versions size_of max_size stored \<rparr>))"

section \<open>Node names\<close>

text \<open>
  \<^verbatim>\<open>pubsub::node_name\<close>: the vector \<^verbatim>\<open>keys_\<close> of keys, a key being a domain and a
  value. The classes \<^verbatim>\<open>key\<close> and \<^verbatim>\<open>key_domain\<close> are declared in a header that is not
  at hand; a domain is represented by its name and \<^verbatim>\<open>key_domain::operator<\<close> by the
  order of the names. What is proved below needs of that order only that it is a strict
  linear order.
\<close>

type_synonym key = "string \<times> string"

type_synonym node_name = "key list"

datatype error = Out_Of_Range | Assertion_Failed | Invalid_Iterator | Adapter_Error

text \<open>
  The pieces of the standard library and of \<^verbatim>\<open>json::object\<close> that the constructor uses:
  subtraction on \<^verbatim>\<open>std::size_t\<close> (64 bits), \<^verbatim>\<open>std::string::substr\<close>, which throws
  when the position is behind the end, \<^verbatim>\<open>std::string::c_str\<close> read back as a character
  pointer, which ends at the first NUL, and \<^verbatim>\<open>keys\<close>, \<^verbatim>\<open>at\<close> (throwing
  \<^verbatim>\<open>std::out_of_range\<close> for an unknown key) and \<^verbatim>\<open>add\<close> of \<^verbatim>\<open>json::object\<close>.
  \<^verbatim>\<open>json.h\<close> documents of \<^verbatim>\<open>keys\<close>: "The keys will be ordered in descent order".
\<close>

definition size_t_minus :: "nat \<Rightarrow> nat \<Rightarrow> nat" where
  "size_t_minus a b = (if b \<le> a then a - b else a + 2 ^ 64 - b)"

definition substr :: "string \<Rightarrow> nat \<Rightarrow> nat \<Rightarrow> error + string" where
  "substr s pos n = (if length s < pos then Inl Out_Of_Range else Inr (take n (drop pos s)))"

definition c_str :: "string \<Rightarrow> string" where
  "c_str s = takeWhile (\<lambda>c. c \<noteq> CHR 0x00) s"

definition object_keys :: "(string \<times> json) list \<Rightarrow> string list" where
  "object_keys obj = rev (sort (remdups (map fst obj)))"

definition object_at :: "(string \<times> json) list \<Rightarrow> string \<Rightarrow> error + json" where
  "object_at obj name = (case map_of obj name of None \<Rightarrow> Inl Out_Of_Range | Some v \<Rightarrow> Inr v)"

definition object_add :: "(string \<times> json) list \<Rightarrow> string \<Rightarrow> json \<Rightarrow> (string \<times> json) list" where
  "object_add obj name val = obj @ [(name, val)]"

text \<open>Running a throwing function over a vector: the first exception ends the loop.\<close>

fun collect :: "('a \<Rightarrow> error + 'b) \<Rightarrow> 'a list \<Rightarrow> error + 'b list" where
  "collect f [] = Inr []"
| "collect f (x # xs) =
     (case f x of
        Inl e \<Rightarrow> Inl e
      | Inr y \<Rightarrow> (case collect f xs of Inl e \<Rightarrow> Inl e | Inr ys \<Rightarrow> Inr (y # ys)))"

text \<open>
  \<^verbatim>\<open>to_domain\<close>: the text of the key as \<^verbatim>\<open>tools::as_string\<close> prints it, without its
  first and its last character. \<^verbatim>\<open>convert_to_str\<close>: the characters of a string value,
  the printed text of any other value.
\<close>

definition to_domain :: "(json \<Rightarrow> string) \<Rightarrow> string \<Rightarrow> error + string" where
  "to_domain as_string s =
     (let text = as_string (JString s) in substr text 1 (size_t_minus (length text) 2))"

definition convert_to_str :: "(json \<Rightarrow> string) \<Rightarrow> json \<Rightarrow> string" where
  "convert_to_str as_string val = (case val of JString s \<Rightarrow> s | _ \<Rightarrow> as_string val)"

text \<open>
  \<^verbatim>\<open>node_name::node_name(const json::object& keys)\<close>: the domains of all property names,
  sorted, each paired with the converted value found under
  \<^verbatim>\<open>json::string(k->name().c_str())\<close>.
\<close>

definition node_name_from_json ::
  "(json \<Rightarrow> string) \<Rightarrow> (string \<times> json) list \<Rightarrow> error + node_name"
where
  "node_name_from_json as_string keys =
     (case collect (to_domain as_string) (object_keys keys) of
        Inl e \<Rightarrow> Inl e
      | Inr domains \<Rightarrow>
          collect (\<lambda>k. case object_at keys (c_str k) of
                          Inl e \<Rightarrow> Inl e
                        | Inr v \<Rightarrow> Inr (k, convert_to_str as_string v))
                  (sort domains))"

text \<open>\<^verbatim>\<open>node_name::to_json\<close>: one string property per key, in the order of \<^verbatim>\<open>keys_\<close>.\<close>

definition to_json :: "node_name \<Rightarrow> (string \<times> json) list" where
  "to_json n = foldl (\<lambda>result k. object_add result (fst k) (JString (snd k))) [] n"

text \<open>
  \<^verbatim>\<open>node_name::operator==\<close>: different sizes are unequal; otherwise the loop walks both
  vectors while the keys agree and the result is whether it reached the end.
\<close>

fun keys_agree :: "key list \<Rightarrow> key list \<Rightarrow> bool" where
  "keys_agree [] rhs = True"
| "keys_agree (l # ls) [] = False"
| "keys_agree (l # ls) (r # rs) = (if l = r then keys_agree ls rs else False)"

definition node_name_eq :: "node_name \<Rightarrow> node_name \<Rightarrow> bool" where
  "node_name_eq lhs rhs = (if length lhs \<noteq> length rhs then False else keys_agree lhs rhs)"

text \<open>
  \<^verbatim>\<open>node_name::add\<close>: the position is the lower bound of the key's domain in
  \<^verbatim>\<open>keys_\<close>, which is ordered by domain; a key of the same domain is replaced, otherwise
  the key is inserted there.
\<close>

fun add :: "key \<Rightarrow> node_name \<Rightarrow> node_name" where
  "add k [] = [k]"
| "add k (p # ps) =
     (if fst p < fst k then p # add k ps
      else if fst k < fst p then k # p # ps
      else k # ps)"

section \<open>The session connector\<close>

text \<open>
  \<^verbatim>\<open>bayeux::connector\<close> (\<^verbatim>\<open>bayeux/bayeux.cpp\<close>). An entry \<^verbatim>\<open>session_data\<close> holds the use
  count, the flag \<^verbatim>\<open>remove_\<close>, the session (its address) and the timer (whether a wait for
  its expiry is pending). \<^verbatim>\<open>sessions_\<close> maps session ids to entries, \<^verbatim>\<open>index_\<close> maps a
  session to its place in \<^verbatim>\<open>sessions_\<close>, that is to its id. Both are kept as association
  lists, so that their sizes can be compared as the assertions do. A failing \<^verbatim>\<open>assert\<close> is
  the error \<open>Assertion_Failed\<close>; an index entry without its session is \<open>Invalid_Iterator\<close>.
\<close>

record session_data =
  use_count :: nat
  remove :: bool
  session :: nat
  timer_waiting :: bool

record connector =
  sessions :: "(string \<times> session_data) list"
  index :: "(nat \<times> string) list"

text \<open>\<^verbatim>\<open>connector::session_data::session_data\<close>; \<open>address\<close> is where the new session lives.\<close>

definition new_session_data :: "nat \<Rightarrow> session_data" where
  "new_session_data address =
     \<lparr> use_count = 1, remove = False, session = address, timer_waiting = False \<rparr>"

definition erase :: "'k \<Rightarrow> ('k \<times> 'v) list \<Rightarrow> ('k \<times> 'v) list" where
  "erase k m = filter (\<lambda>entry. fst entry \<noteq> k) m"

definition replace :: "'k \<Rightarrow> 'v \<Rightarrow> ('k \<times> 'v) list \<Rightarrow> ('k \<times> 'v) list" where
  "replace k v m = map (\<lambda>entry. if fst entry = k then (k, v) else entry) m"

text \<open>\<^verbatim>\<open>connector::find_session\<close>: a known id gains a use and yields its session.\<close>

definition find_session :: "string \<Rightarrow> connector \<Rightarrow> nat option \<times> connector" where
  "find_session session_id c =
     (case map_of (sessions c) session_id of
        Some d \<Rightarrow>
          (Some (session d),
           c\<lparr> sessions := replace session_id (d\<lparr> use_count := use_count d + 1 \<rparr>) (sessions c) \<rparr>)
      | None \<Rightarrow> (None, c))"

text \<open>
  \<^verbatim>\<open>connector::create_session\<close>. The session generator is given by the ids it produces
  one after the other; the loop asks for the next id as long as the id is in use, and the
  result is \<open>None\<close> when the generator has no fresh id among them.
\<close>

fun fresh_session_id :: "string list \<Rightarrow> (string \<times> session_data) list \<Rightarrow> string option" where
  "fresh_session_id [] m = None"
| "fresh_session_id (session_id # rest) m =
     (if map_of m session_id \<noteq> None then fresh_session_id rest m else Some session_id)"

definition create_session :: "string list \<Rightarrow> nat \<Rightarrow> connector \<Rightarrow> (nat \<times> connector) option" where
  "create_session generated address c =
     (case fresh_session_id generated (sessions c) of
        None \<Rightarrow> None
      | Some session_id \<Rightarrow>
          Some (address,
                \<lparr> sessions = sessions c @ [(session_id, new_session_data address)],
                  index = (if map_of (index c) address = None
                           then index c @ [(address, session_id)] else index c) \<rparr>))"

text \<open>
  \<^verbatim>\<open>connector::idle_session\<close>: one use less; at zero the timer is set to the session timeout
  and a wait for it is started.
\<close>

definition idle_session :: "nat \<Rightarrow> connector \<Rightarrow> error + connector" where
  "idle_session s c =
     (case map_of (index c) s of
        None \<Rightarrow> Inl Assertion_Failed
      | Some session_id \<Rightarrow>
          (case map_of (sessions c) session_id of
             None \<Rightarrow> Inl Invalid_Iterator
           | Some d \<Rightarrow>
               if use_count d = 0 then Inl Assertion_Failed
               else
                 let d' = d\<lparr> use_count := use_count d - 1 \<rparr>;
                     d'' = (if use_count d' = 0 then d'\<lparr> timer_waiting := True \<rparr> else d')
                 in Inr (c\<lparr> sessions := replace session_id d'' (sessions c) \<rparr>)))"

text \<open>
  \<^verbatim>\<open>connector::drop_session\<close>: a known session without users is erased from both
  containers; the two assertions check that exactly one index entry went and that the
  containers have the same size afterwards.
\<close>

definition drop_session :: "string \<Rightarrow> connector \<Rightarrow> error + connector" where
  "drop_session session_id c =
     (case map_of (sessions c) session_id of
        Some d \<Rightarrow>
          if use_count d = 0
          then
            if map_of (index c) (session d) = None then Inl Assertion_Failed
            else
              let c' = \<lparr> sessions = erase session_id (sessions c),
                         index = erase (session d) (index c) \<rparr>
              in if length (sessions c') = length (index c') then Inr c'
                 else Inl Assertion_Failed
          else if length (sessions c) = length (index c) then Inr c else Inl Assertion_Failed
      | None \<Rightarrow> if length (sessions c) = length (index c) then Inr c else Inl Assertion_Failed)"

text \<open>
  \<^verbatim>\<open>connector::session_timeout_reached\<close>, the handler of the timer's wait; \<open>ec\<close> tells
  that the wait ended with an error code (it was cancelled).
\<close>

definition session_timeout_reached :: "nat \<Rightarrow> bool \<Rightarrow> connector \<Rightarrow> error + connector" where
  "session_timeout_reached s ec c =
     (if ec then Inr c
      else
        case map_of (index c) s of
          None \<Rightarrow> Inr c
        | Some session_id \<Rightarrow>
            (case map_of (sessions c) session_id of
               None \<Rightarrow> Inl Invalid_Iterator
             | Some d \<Rightarrow>
                 if use_count d = 0
                 then
                   let c' = \<lparr> sessions = erase session_id (sessions c),
                              index = erase s (index c) \<rparr>
                   in if length (sessions c') = length (index c') then Inr c'
                      else Inl Assertion_Failed
                 else Inr c))"

section \<open>Sessions and the subscription registry\<close>

text \<open>
  The session (\<^verbatim>\<open>bayeux/session.cpp\<close>) and the registry (\<^verbatim>\<open>pubsub/root.cpp\<close>) are
  exercised by \<^verbatim>\<open>bayeux/session_test.cpp\<close>, but their sources are not at hand. The
  definitions of this section follow the specification's sections 3, 4.2 and 4.3 and the
  events that the tests expect.
\<close>

text \<open>
  Modelled from the spec: the two caps of the configuration, \<^verbatim>\<open>max_messages_per_client\<close>
  (a count) and \<^verbatim>\<open>max_messages_size_per_client\<close> (a sum of serialized sizes), of the
  absent \<^verbatim>\<open>bayeux/configuration.h\<close>.
\<close>

record configuration =
  max_messages_per_client :: nat
  max_messages_size_per_client :: nat

text \<open>
  Modelled from the spec: what a session tells a long-poll response (the absent
  \<^verbatim>\<open>response_interface\<close>), either the events it waited for or that a second connection
  was detected. A response is named by a number.
\<close>

datatype notification = New_Message nat "json list" | Second_Connection_Detected nat

text \<open>
  Modelled from the spec: the state of the absent class \<^verbatim>\<open>bayeux::session\<close>, "session_id,
  config, queue<event>, waiting_response?"; \<open>notified\<close> records the calls made to
  responses, oldest first.
\<close>

record bayeux_session =
  session_id :: string
  config :: configuration
  queue :: "json list"
  waiting_response :: "nat option"
  notified :: "notification list"

text \<open>
  Modelled from the spec: the constructor of the absent \<^verbatim>\<open>bayeux::session\<close>; a new session
  has no events and no waiting response.
\<close>

definition new_session :: "string \<Rightarrow> configuration \<Rightarrow> bayeux_session" where
  "new_session sid cfg =
     \<lparr> session_id = sid, config = cfg, queue = [], waiting_response = None, notified = [] \<rparr>"

text \<open>
  Modelled from the spec: the invariant of the absent \<^verbatim>\<open>bayeux::session\<close>,
  "waiting_response non-null implies queue is empty".
\<close>

definition session_invariant :: "bayeux_session \<Rightarrow> bool" where
  "session_invariant s = (waiting_response s = None \<or> queue s = [])"

text \<open>
  Modelled from the spec: the two caps of the event queue of the absent
  \<^verbatim>\<open>bayeux::session\<close>, "enforced jointly".
\<close>

definition within_caps :: "(json \<Rightarrow> nat) \<Rightarrow> configuration \<Rightarrow> json list \<Rightarrow> bool" where
  "within_caps size_of cfg q =
     (length q \<le> max_messages_per_client cfg
      \<and> sum_list (map size_of q) \<le> max_messages_size_per_client cfg)"

text \<open>
  Modelled from the spec: the eviction of the absent \<^verbatim>\<open>bayeux::session\<close>, "on overflow,
  the oldest events are dropped until both caps hold".
\<close>

fun limit_queue :: "(json \<Rightarrow> nat) \<Rightarrow> configuration \<Rightarrow> json list \<Rightarrow> json list" where
  "limit_queue size_of cfg [] = []"
| "limit_queue size_of cfg (e # es) =
     (if within_caps size_of cfg (e # es) then e # es else limit_queue size_of cfg es)"

text \<open>
  Modelled from the spec: the enqueue of the absent \<^verbatim>\<open>bayeux::session\<close>. The batch is
  appended and the caps are enforced; "any enqueue with a non-null waiting_response
  atomically hands the batch to that response and clears it".
\<close>

definition add_messages :: "(json \<Rightarrow> nat) \<Rightarrow> json list \<Rightarrow> bayeux_session \<Rightarrow> bayeux_session" where
  "add_messages size_of batch s =
     (let q = limit_queue size_of (config s) (queue s @ batch)
      in case waiting_response s of
           None \<Rightarrow> s\<lparr> queue := q \<rparr>
         | Some r \<Rightarrow> s\<lparr> queue := [], waiting_response := None,
                        notified := notified s @ [New_Message r q] \<rparr>)"

text \<open>
  Modelled from the spec: \<^verbatim>\<open>events()\<close> of the absent \<^verbatim>\<open>bayeux::session\<close>, "drains and
  returns all pending events atomically".
\<close>

definition events :: "bayeux_session \<Rightarrow> json list \<times> bayeux_session" where
  "events s = (queue s, s\<lparr> queue := [] \<rparr>)"

text \<open>
  Modelled from the spec: \<^verbatim>\<open>wait_for_events(response)\<close> of the absent \<^verbatim>\<open>bayeux::session\<close>,
  "if queue non-empty, returns its contents and keeps no reference to response; otherwise
  stores response as waiting_response. If a prior waiting_response was already present,
  that prior response is notified with second_connection_detected and dropped; the new one
  replaces it."
\<close>

definition wait_for_events :: "nat \<Rightarrow> bayeux_session \<Rightarrow> json list \<times> bayeux_session" where
  "wait_for_events response s =
     (if queue s \<noteq> [] then (queue s, s\<lparr> queue := [] \<rparr>)
      else ([], s\<lparr> waiting_response := Some response,
                   notified := notified s @
                     (case waiting_response s of
                        None \<Rightarrow> []
                      | Some prior \<Rightarrow> [Second_Connection_Detected prior]) \<rparr>))"

text \<open>
  Modelled from the spec: the lookup of a property in a value, as \<^verbatim>\<open>json::object::find\<close>
  of the absent \<^verbatim>\<open>json.cpp\<close> does it for an object.
\<close>

definition member :: "string \<Rightarrow> json \<Rightarrow> json option" where
  "member name val = (case val of JObject properties \<Rightarrow> map_of properties name | _ \<Rightarrow> None)"

text \<open>
  Modelled from the spec: the event that \<^verbatim>\<open>on_update\<close> of the absent \<^verbatim>\<open>bayeux::session\<close>
  enqueues, "{channel, data [,id-if-present-in-data]}"; as in the tests, \<^verbatim>\<open>data\<close> and
  \<^verbatim>\<open>id\<close> are the properties of these names of the node's value.
\<close>

definition copy_member :: "string \<Rightarrow> json \<Rightarrow> (string \<times> json) list" where
  "copy_member name val = (case member name val of None \<Rightarrow> [] | Some v \<Rightarrow> [(name, v)])"

definition update_event :: "string \<Rightarrow> json \<Rightarrow> json" where
  "update_event channel val =
     JObject ([(''channel'', JString channel)] @ copy_member ''data'' val @ copy_member ''id'' val)"

text \<open>
  Modelled from the spec: \<^verbatim>\<open>on_update(node_name, node)\<close> of the absent
  \<^verbatim>\<open>bayeux::session\<close>; the node is given by its channel and its value.
\<close>

definition on_update ::
  "(json \<Rightarrow> nat) \<Rightarrow> string \<Rightarrow> json \<Rightarrow> bayeux_session \<Rightarrow> bayeux_session"
where
  "on_update size_of channel val s = add_messages size_of [update_event channel val] s"









section \<open>Properties of node versions\<close>

lemma sint_widened:
  fixes a :: "'a::len word"
  assumes "uint a < 2 ^ 63"
  shows "sint (ucast a :: 64 word) = uint a"
proof -
  have "0 \<le> uint a" by simp
  have "uint (ucast a :: 64 word) = take_bit 64 (uint a)"
    by (simp add: unsigned_ucast_eq)
  also have "\<dots> = uint a"
  proof (rule take_bit_int_eq_self)
    show "0 \<le> uint a" by simp
    have "uint a < 9223372036854775808" using assms by simp
    then have "uint a < 18446744073709551616" by linarith
    then show "uint a < 2 ^ 64" by simp
  qed
  finally have u: "uint (ucast a :: 64 word) = uint a" .
  have "sint (ucast a :: 64 word) = signed_take_bit 63 (uint (ucast a :: 64 word))"
    by (simp add: sint_uint)
  also have "\<dots> = uint a"
    unfolding u
  proof (rule signed_take_bit_int_eq_self)
    have "- (9223372036854775808 :: int) \<le> 0" by simp
    also have "0 \<le> uint a" by simp
    finally show "- (2 ^ 63) \<le> uint a" by simp
    show "uint a < 2 ^ 63" by (rule assms)
  qed
  finally show ?thesis .
qed

lemma sint_distance:
  fixes a b :: "'a::len word"
  assumes "uint a < 2 ^ 63" "uint b < 2 ^ 63"
  shows "sint ((ucast a :: 64 word) - ucast b) = uint a - uint b"
proof -
  have a: "uint a < 9223372036854775808" "0 \<le> uint a" using assms(1) by simp_all
  have b: "uint b < 9223372036854775808" "0 \<le> uint b" using assms(2) by simp_all
  have "sint ((ucast a :: 64 word) - ucast b)
          = signed_take_bit 63 (sint (ucast a :: 64 word) - sint (ucast b :: 64 word))"
    by (simp add: sint_word_ariths)
  also have "\<dots> = signed_take_bit 63 (uint a - uint b)"
    by (simp only: sint_widened [OF assms(1)] sint_widened [OF assms(2)])
  also have "\<dots> = uint a - uint b"
  proof (rule signed_take_bit_int_eq_self)
    have "- (9223372036854775808 :: int) \<le> uint a - uint b" using a b by linarith
    then show "- (2 ^ 63) \<le> uint a - uint b" by simp
    have "uint a - uint b < (9223372036854775808 :: int)" using a b by linarith
    then show "uint a - uint b < 2 ^ 63" by simp
  qed
  finally show ?thesis .
qed

lemma sint_narrow:
  fixes d :: "64 word"
  assumes "- (2 ^ 31) \<le> sint d" "sint d < 2 ^ 31"
  shows "sint (ucast d :: 32 word) = sint d"
proof -
  have "sint (ucast d :: 32 word) = signed_take_bit 31 (uint d)"
    by (simp add: sint_uint unsigned_ucast_eq signed_take_bit_take_bit)
  also have "\<dots> = signed_take_bit 31 (sint d)"
    by (simp add: sint_uint)
  also have "\<dots> = sint d"
    using assms by (intro signed_take_bit_int_eq_self) simp_all
  finally show ?thesis .
qed

lemma node_version_minus_clamps:
  "sint (node_version_minus a b)
     = max (- (2 ^ 31)) (min (2 ^ 31 - 1) (sint ((ucast a :: 64 word) - ucast b)))"
proof -
  let ?d = "(ucast a :: 64 word) - ucast b"
  have mx: "sint INT_MAX = 2 ^ 31 - 1" by (simp add: INT_MAX_def)
  have mn: "sint INT_MIN = - (2 ^ 31)" by (simp add: INT_MIN_def)
  have cmx: "sint (ucast INT_MAX :: 32 word) = 2 ^ 31 - 1" by (simp add: INT_MAX_def)
  have cmn: "sint (ucast INT_MIN :: 32 word) = - (2 ^ 31)" by (simp add: INT_MIN_def)
  consider (hi) "2 ^ 31 - 1 < sint ?d" | (lo) "sint ?d < - (2 ^ 31)"
    | (mid) "- (2 ^ 31) \<le> sint ?d" "sint ?d \<le> 2 ^ 31 - 1" by linarith
  then show ?thesis
  proof cases
    case hi
    then have "node_version_minus a b = ucast INT_MAX"
      by (simp add: node_version_minus_def Let_def word_sless_alt mx)
    with hi show ?thesis by (simp add: cmx)
  next
    case lo
    then have "node_version_minus a b = ucast INT_MIN"
      by (simp add: node_version_minus_def Let_def word_sless_alt mx mn)
    with lo show ?thesis by (simp add: cmn)
  next
    case mid
    then have "node_version_minus a b = ucast ?d"
      by (simp add: node_version_minus_def Let_def word_sless_alt mx mn)
    moreover have "sint (ucast ?d :: 32 word) = sint ?d"
      using mid by (intro sint_narrow) simp_all
    ultimately show ?thesis using mid by simp
  qed
qed

text \<open>
  Claim C9, as stated: the difference is the mathematical difference of the two counters,
  clamped. It is not for a 64-bit counter from \<open>2\<^sup>6\<^sup>3\<close> up: the version before version 0,
  \<^verbatim>\<open>node_version(0) - 1u\<close>, has the counter \<open>2\<^sup>6\<^sup>4 - 1\<close>, whose difference to the counter 0
  is far above the range of \<^verbatim>\<open>int\<close>, and the code returns \<open>-1\<close>.
\<close>

theorem node_version_minus_wrapped_counter:
  "uint (node_version_decrement (0 :: 64 word) 1) - uint (0 :: 64 word) = 18446744073709551615
   \<and> sint (node_version_minus (node_version_decrement (0 :: 64 word) 1) 0) = - 1"
proof -
  have "node_version_decrement (0 :: 64 word) 1 = 18446744073709551615"
    by (simp add: node_version_decrement_def)
  then show ?thesis
    by (simp add: node_version_minus_def INT_MAX_def INT_MIN_def Let_def word_sless_alt)
qed

text \<open>
  Claim C9, amended. For two node versions whose counters are below \<open>2\<^sup>6\<^sup>3\<close>, as every
  counter of at most 63 bits is, the difference read as a signed \<^verbatim>\<open>int\<close> is the
  mathematical difference of the two counters clamped to the range of \<^verbatim>\<open>int\<close>: a
  difference above \<open>2\<^sup>3\<^sup>1 - 1\<close> yields \<open>2\<^sup>3\<^sup>1 - 1\<close>, one below \<open>- 2\<^sup>3\<^sup>1\<close> yields \<open>- 2\<^sup>3\<^sup>1\<close>.
\<close>

theorem node_version_minus_saturates:
  fixes a b :: "'a::len word"
  assumes "uint a < 2 ^ 63" and "uint b < 2 ^ 63"
  shows "sint (node_version_minus a b) =
     (if 2 ^ 31 - 1 < uint a - uint b then 2 ^ 31 - 1
      else if uint a - uint b < - (2 ^ 31) then - (2 ^ 31)
      else uint a - uint b)"
  by (simp add: node_version_minus_clamps sint_distance [OF assms])

theorem node_version_minus_saturates_witness:
  "uint (4294967295 :: 64 word) < 2 ^ 63 \<and> uint (7 :: 64 word) < 2 ^ 63
   \<and> sint (node_version_minus (4294967295 :: 64 word) 7) = 2147483647
   \<and> sint (node_version_minus (7 :: 64 word) 4294967295) = - 2147483648
   \<and> sint (node_version_minus (7 :: 64 word) 10) = - 3
   \<and> uint (4294967295 :: 32 word) < 2 ^ 63 \<and> uint (7 :: 32 word) < 2 ^ 63
   \<and> sint (node_version_minus (4294967295 :: 32 word) 7) = 2147483647"
proof -
  have a: "uint (4294967295 :: 64 word) < 2 ^ 63" by simp
  have b: "uint (7 :: 64 word) < 2 ^ 63" by simp
  have c: "uint (10 :: 64 word) < 2 ^ 63" by simp
  have d: "uint (4294967295 :: 32 word) < 2 ^ 63" by simp
  have e: "uint (7 :: 32 word) < 2 ^ 63" by simp
  from node_version_minus_saturates [OF a b] node_version_minus_saturates [OF b a]
    node_version_minus_saturates [OF b c] node_version_minus_saturates [OF d e] a b d e
  show ?thesis by simp
qed

section \<open>Properties of nodes\<close>

lemma size_t_to_int_small:
  assumes "n < 2 ^ 31"
  shows "sint (size_t_to_int n) = int n"
proof -
  have "take_bit 32 n = n"
    using assms by (intro take_bit_nat_eq_self) simp
  then have "sint (word_of_nat n :: 32 word) = signed_take_bit 31 (int n)"
    by (simp add: sint_uint signed_take_bit_take_bit unsigned_of_nat)
  also have "\<dots> = int n"
  proof (rule signed_take_bit_int_eq_self)
    have "(0::int) \<le> int n" by simp
    moreover have "- (2 ^ 31) \<le> (0::int)" by simp
    ultimately show "- (2 ^ 31) \<le> int n" by (rule order_trans [rotated])
    show "int n < 2 ^ 31" using assms by simp
  qed
  finally show ?thesis by (simp add: size_t_to_int_def)
qed

lemma get_update_from_guard:
  assumes "length (updates n) < 2 ^ 31"
  shows "(node_version_minus (version n) known_version \<le>s 0
          \<or> size_t_to_int (length (updates n)) <s node_version_minus (version n) known_version)
      = (\<not> (0 < sint (node_version_minus (version n) known_version)
             \<and> sint (node_version_minus (version n) known_version) \<le> int (length (updates n))))"
proof -
  have "sint (size_t_to_int (length (updates n))) = int (length (updates n))"
    using assms by (rule size_t_to_int_small)
  then show ?thesis
    by (auto simp add: word_sle_eq word_sless_alt)
qed

text \<open>
  What \<open>get_update_from\<close> returns, for a ring whose length fits an \<^verbatim>\<open>int\<close>: on a positive
  distance of at most the length of the ring the last \<open>distance\<close> entries of the ring in
  their order, otherwise the current value. Whether these entries lead from the known
  version to the current one depends on what \<open>update\<close> has stored.
\<close>

lemma get_update_from_last_entries:
  assumes "length (updates n) < 2 ^ 31"
  shows "let distance = sint (node_version_minus (version n) known_version);
             len = length (updates n);
             deltas = drop (len - nat distance) (updates n)
         in if 0 < distance \<and> distance \<le> int len
            then get_update_from n known_version = (True, JArray deltas)
                 \<and> suffix deltas (updates n) \<and> int (length deltas) = distance
            else get_update_from n known_version = (False, data n)"
  unfolding get_update_from_def Let_def get_update_from_guard [OF assms] array_copy_def
  by (auto simp add: suffix_drop)

text \<open>
  Claim C3. For a known version within the ring the deltas returned should lead from the
  known version to the current one. They do not after an update whose delta is not stored:
  the node with value 3, version 10 and the ring \<open>[1, 2, 3]\<close> hands out \<open>[3]\<close> for the
  known version 9. The update to \<^verbatim>\<open>"abcd"\<close> at 50 percent has the budget 3, which the
  delta does not fit; the version becomes 11 and the ring is cut to \<open>[3]\<close>, the delta
  that led to version 10. \<open>oldest_version\<close> is then 10, and for the known version 10
  \<open>get_update_from\<close> returns true with this delta, which leads to the value of version
  10 and not to \<^verbatim>\<open>"abcd"\<close>.
\<close>

theorem get_update_from_stale_delta:
  "(let before = \<lparr> data = JNumber 3, version = 10 :: 64 word,
                    updates = [JNumber 1, JNumber 2, JNumber 3] \<rparr>;
        after = snd (update whole_value_delta json_size (JString ''abcd'') 50 before)
    in get_update_from before 9 = (True, JArray [JNumber 3])
       \<and> whole_value_delta (JNumber 3) (JString ''abcd'') 3 = (False, JString ''abcd'')
       \<and> after = \<lparr> data = JString ''abcd'', version = 11, updates = [JNumber 3] \<rparr>
       \<and> oldest_version after = 10
       \<and> get_update_from after 10 = (True, JArray [JNumber 3]))"
proof -
  let ?before = "\<lparr> data = JNumber 3, version = 10 :: 64 word,
                    updates = [JNumber 1, JNumber 2, JNumber 3] \<rparr>"
  let ?after = "\<lparr> data = JString ''abcd'', version = 11 :: 64 word, updates = [JNumber 3] \<rparr>"
  have size: "json_size (JString ''abcd'') = 6"
    by (simp add: json_size_def escape_def)
  have refused: "whole_value_delta (JNumber 3) (JString ''abcd'') 3 = (False, JString ''abcd'')"
    by (simp add: whole_value_delta_def size)
  have sizes: "json_size (JArray [JNumber 1, JNumber 2, JNumber 3]) = 7"
    "json_size (JArray [JNumber 2, JNumber 3]) = 5" "json_size (JArray [JNumber 3]) = 3"
    by (simp_all add: json_size_def)
  have after: "snd (update whole_value_delta json_size (JString ''abcd'') 50 ?before) = ?after"
    by (simp add: update_def Let_def size refused sizes)
  have first: "get_update_from ?before 9 = (True, JArray [JNumber 3])"
    by (simp add: get_update_from_def node_version_minus_def INT_MAX_def INT_MIN_def Let_def
          size_t_to_int_def array_copy_def word_sle_eq word_sless_alt)
  have oldest: "oldest_version ?after = 10"
    by (simp add: oldest_version_def node_version_decrement_def size_t_to_unsigned_def)
  have stale: "get_update_from ?after 10 = (True, JArray [JNumber 3])"
    by (simp add: get_update_from_def node_version_minus_def INT_MAX_def INT_MIN_def Let_def
          size_t_to_int_def array_copy_def word_sle_eq word_sless_alt)
  show ?thesis
    unfolding Let_def after by (simp only: first refused oldest stale simp_thms)
qed

text \<open>
  Claim C4. Calling \<open>update\<close> with a value equal to the node's current value returns
  false and leaves the node, that is its value, its version and its ring, as it was.
\<close>

theorem update_same_value:
  "update delta size_of (data n) keep_update_size_percent n = (False, n)"
  by (simp add: update_def)

text \<open>
  Claim C5, as stated: an update whose new value equals the current value still increments
  the version. It does not: on a node with value 1 and version 7, the update to the
  value 1 leaves the version at 7.
\<close>

theorem update_same_value_keeps_version:
  "version (snd (update whole_value_delta json_size (JNumber 1) 50
                   \<lparr> data = JNumber 1, version = 7 :: 64 word, updates = [] \<rparr>)) \<noteq> 7 + 1"
  by (simp add: update_def)

text \<open>
  Claim C5, amended. An update whose new value equals the current value leaves the
  version unchanged; an update to a different value increments the version by one, whether
  or not a delta is stored for it.
\<close>

theorem update_version:
  "version (snd (update delta size_of new_data keep_update_size_percent n)) =
     (if new_data = data n then version n else version n + 1)"
  by (simp add: update_def Let_def)

section \<open>Properties of node names\<close>

lemma to_json_map: "to_json n = map (\<lambda>k. (fst k, JString (snd k))) n"
proof -
  have "foldl (\<lambda>result k. object_add result (fst k) (JString (snd k))) acc n
          = acc @ map (\<lambda>k. (fst k, JString (snd k))) n" for acc
    by (induction n arbitrary: acc) (simp_all add: object_add_def)
  then show ?thesis by (simp add: to_json_def)
qed

lemma collect_all:
  assumes "\<And>x. x \<in> set xs \<Longrightarrow> f x = Inr (g x)"
  shows "collect f xs = Inr (map g xs)"
  using assms by (induction xs) simp_all

lemma collect_map: "collect f (map h xs) = collect (f \<circ> h) xs"
  by (induction xs) (simp_all split: sum.splits)

lemma keys_agree_refl: "keys_agree n n"
  by (induction n) simp_all

lemma node_name_eq_refl: "node_name_eq n n"
  by (simp add: node_name_eq_def keys_agree_refl)

lemma c_str_id: "CHR 0x00 \<notin> set s \<Longrightarrow> c_str s = s"
  by (auto simp add: c_str_def)

lemma c_str_no_nul: "CHR 0x00 \<notin> set (c_str s)"
  by (auto simp add: c_str_def dest: set_takeWhileD)

lemma strictly_sorted_distinct: "sorted_wrt (<) (xs :: string list) \<Longrightarrow> distinct xs"
  using strict_sorted_iff by blast

text \<open>
  The class invariant of a node name, domains strictly increasing, holds for the empty name
  and is kept by \<open>add\<close>.
\<close>

lemma add_domains: "set (map fst (add k n)) = insert (fst k) (set (map fst n))"
  by (induction n) auto

lemma add_sorted:
  "sorted_wrt (<) (map fst n) \<Longrightarrow> sorted_wrt (<) (map fst (add k n))"
proof (induction n)
  case Nil
  then show ?case by simp
next
  case (Cons p ps)
  have "\<forall>d \<in> set (map fst (add k ps)). fst p < d" if "fst p < fst k"
    using Cons.prems that unfolding add_domains by auto
  with Cons show ?case by (auto simp del: set_map)
qed

lemma lookup_each:
  assumes dist: "distinct (map fst n)"
    and nul: "\<And>k. k \<in> set n \<Longrightarrow> CHR 0x00 \<notin> set (fst k)"
    and k: "k \<in> set n"
  shows "(case object_at (to_json n) (c_str (fst k)) of
            Inl e \<Rightarrow> Inl e
          | Inr v \<Rightarrow> Inr (fst k, convert_to_str as_string v)) = Inr k"
proof -
  have "map_of (map (\<lambda>k. (fst k, JString (snd k))) n) (fst k) = Some (JString (snd k))"
  proof (rule map_of_is_SomeI)
    show "distinct (map fst (map (\<lambda>k. (fst k, JString (snd k))) n))"
      using dist by (simp add: comp_def)
    show "(fst k, JString (snd k)) \<in> set (map (\<lambda>k. (fst k, JString (snd k))) n)"
      using k by force
  qed
  then show ?thesis
    using nul [OF k] by (simp add: c_str_id object_at_def to_json_map convert_to_str_def)
qed

text \<open>
  Where the round trip works: for a node name with strictly increasing domains whose domain
  names contain no NUL and are printed by the serializer as themselves between the two
  quotation marks, the constructor applied to \<open>to_json n\<close> sorts the keys, which the
  object lists in descending order, back into the order of \<open>n\<close> and returns \<open>n\<close>.
\<close>

lemma node_name_round_trip_plain:
  assumes ordered: "sorted_wrt (<) (map fst n)"
    and plain: "\<forall>k \<in> set n. to_domain as_string (fst k) = Inr (fst k) \<and> CHR 0x00 \<notin> set (fst k)"
  shows "case node_name_from_json as_string (to_json n) of
           Inl e \<Rightarrow> False
         | Inr m \<Rightarrow> node_name_eq m n \<and> m = n"
proof -
  let ?lookup = "\<lambda>k. case object_at (to_json n) (c_str k) of
                        Inl e \<Rightarrow> Inl e
                      | Inr v \<Rightarrow> Inr (k, convert_to_str as_string v)"
  have dist: "distinct (map fst n)" using ordered by (rule strictly_sorted_distinct)
  have sorted: "sorted (map fst n)" using ordered by (simp add: strict_sorted_iff)
  have keys: "object_keys (to_json n) = rev (map fst n)"
    using dist sorted by (simp add: object_keys_def to_json_map comp_def sorted_sort_id)
  have doms: "collect (to_domain as_string) (rev (map fst n)) = Inr (map id (rev (map fst n)))"
    using plain by (intro collect_all) auto
  have srt: "sort (rev (map fst n)) = map fst n"
    using sorted by (intro properties_for_sort) simp_all
  have "collect (?lookup \<circ> fst) n = Inr (map id n)"
    using lookup_each [OF dist] plain by (intro collect_all) (simp add: comp_def)
  then have each: "collect ?lookup (map fst n) = Inr n"
    by (simp add: collect_map)
  have "node_name_from_json as_string (to_json n) = Inr n"
    by (simp add: node_name_from_json_def keys doms srt each)
  then show ?thesis by (simp add: node_name_eq_refl)
qed

lemma node_name_round_trip_example:
  "node_name_from_json json_text (to_json [(''a'', ''1''), (''foo'', ''bar'')])
     = Inr [(''a'', ''1''), (''foo'', ''bar'')]"
  by (simp add: node_name_from_json_def to_json_def object_add_def object_keys_def to_domain_def
        substr_def size_t_minus_def c_str_def object_at_def escape_def convert_to_str_def)

text \<open>A domain name with a NUL is not found again, whatever the serializer prints.\<close>

lemma nul_domain_is_not_found:
  assumes "CHR 0x00 \<in> set d"
  shows "\<exists>e. node_name_from_json as_string (to_json [(d, v)]) = Inl e"
proof -
  have "c_str k \<noteq> d" for k
    using assms c_str_no_nul [of k] by auto
  then show ?thesis
    by (auto simp add: node_name_from_json_def to_json_def object_add_def object_keys_def
          object_at_def split: sum.splits)
qed

text \<open>
  Claim C10. The round trip \<^verbatim>\<open>node_name(n.to_json()) == n\<close> should hold for every node
  name. The constructor does not return on what \<open>to_json\<close> emits for two kinds of domain
  names. For the domain \<open>a\<close>, quotation mark, \<open>b\<close> the domain is taken from the printed
  text of the property name, in which the quotation mark is escaped, and there is no
  property of that name. For the domain \<open>a\<close>, NUL, \<open>b\<close> the value is looked up under the
  characters before the NUL. In both cases \<^verbatim>\<open>at\<close> throws \<^verbatim>\<open>std::out_of_range\<close>.
\<close>

theorem node_name_round_trip_throws:
  "node_name_from_json json_text (to_json [([CHR ''a'', CHR 0x22, CHR ''b''], ''v'')])
     = Inl Out_Of_Range
   \<and> node_name_from_json json_text (to_json [([CHR ''a'', CHR 0x00, CHR ''b''], ''v'')])
     = Inl Out_Of_Range"
  by (simp add: node_name_from_json_def to_json_def object_add_def object_keys_def to_domain_def
        substr_def size_t_minus_def c_str_def object_at_def escape_def)

section \<open>Properties of the session connector\<close>

lemma map_of_erase: "map_of (erase k m) k = None"
  by (induction m) (auto simp add: erase_def)

lemma map_of_replace_None:
  "(map_of (replace k v m) k' = None) = (map_of m k' = None)"
  by (induction m) (auto simp add: replace_def)

lemma length_erase:
  "distinct (map fst m) \<Longrightarrow> map_of m k \<noteq> None \<Longrightarrow> Suc (length (erase k m)) = length m"
proof (induction m)
  case Nil
  then show ?case by simp
next
  case (Cons p m)
  show ?case
  proof (cases "fst p = k")
    case True
    with Cons.prems have "k \<notin> fst ` set m" by auto
    then have "filter (\<lambda>entry. fst entry \<noteq> k) m = m"
      by (intro filter_True) auto
    with True show ?thesis by (simp add: erase_def)
  next
    case False
    with Cons show ?thesis by (cases p) (auto simp add: erase_def)
  qed
qed

lemma map_of_replace:
  "map_of m k \<noteq> None \<Longrightarrow> map_of (replace k v m) k = Some v"
  by (induction m) (auto simp add: replace_def)

text \<open>\<open>idle_session\<close> removes no session, whatever its use count and its flags are.\<close>

lemma idle_session_keeps_sessions:
  assumes "idle_session s c = Inr c'"
  shows "(map_of (sessions c') sid = None) = (map_of (sessions c) sid = None)"
    and "index c' = index c"
  using assms
  by (auto simp add: idle_session_def Let_def map_of_replace_None
      split: option.splits if_splits)

text \<open>
  Claim C8, as stated: a session that is in use when \<open>drop_session\<close> is called is removed
  at its next idle transition. It is not: after \<open>create_session\<close> (one use),
  \<open>drop_session\<close> returns the connector as it was, and the following \<open>idle_session\<close>
  only starts the timer; the session stays in both containers, with \<^verbatim>\<open>remove_\<close> still
  false, until \<open>session_timeout_reached\<close> runs.
\<close>

theorem drop_session_in_use_not_deferred:
  "(case create_session [''192.168.210.1:9999/0''] 1 \<lparr> sessions = [], index = [] \<rparr> of
      None \<Rightarrow> False
    | Some (s, c1) \<Rightarrow>
        drop_session ''192.168.210.1:9999/0'' c1 = Inr c1
        \<and> (case idle_session s c1 of
             Inl e \<Rightarrow> False
           | Inr c2 \<Rightarrow>
               map_of (sessions c2) ''192.168.210.1:9999/0''
                 = Some \<lparr> use_count = 0, remove = False, session = s, timer_waiting = True \<rparr>
               \<and> map_of (index c2) s = Some ''192.168.210.1:9999/0''
               \<and> session_timeout_reached s False c2 = Inr \<lparr> sessions = [], index = [] \<rparr>))"
  by (simp add: create_session_def new_session_data_def drop_session_def idle_session_def
        session_timeout_reached_def replace_def erase_def Let_def)

text \<open>
  Claim C8, amended. For a session known to a consistent connector (unique keys, each
  session indexed, both containers of one size): with use count zero \<open>drop_session\<close>
  erases it from both containers, and so does the expiry of the idle timer; with a positive
  use count \<open>drop_session\<close> and the expiry of the timer leave the connector as it was,
  and the next \<open>idle_session\<close> of that session keeps it in both containers with one use
  less, the timer waiting once the count is zero.
\<close>

theorem drop_session_unused_only:
  assumes known: "map_of (sessions c) sid = Some d"
    and indexed: "map_of (index c) (session d) = Some sid"
    and unique: "distinct (map fst (sessions c))" "distinct (map fst (index c))"
    and sizes: "length (sessions c) = length (index c)"
  shows "(use_count d = 0 \<longrightarrow>
            (\<exists>c'. drop_session sid c = Inr c'
                  \<and> map_of (sessions c') sid = None
                  \<and> map_of (index c') (session d) = None)
            \<and> session_timeout_reached (session d) False c = drop_session sid c)
     \<and> (0 < use_count d \<longrightarrow>
            drop_session sid c = Inr c
            \<and> session_timeout_reached (session d) False c = Inr c
            \<and> (\<exists>c'. idle_session (session d) c = Inr c'
                  \<and> map_of (sessions c') sid
                      = Some (d\<lparr> use_count := use_count d - 1,
                                 timer_waiting := (use_count d = 1 \<or> timer_waiting d) \<rparr>)
                  \<and> index c' = index c))"
proof (intro conjI impI)
  assume unused: "use_count d = 0"
  have "Suc (length (erase sid (sessions c))) = length (sessions c)"
    using unique(1) known by (intro length_erase) simp_all
  moreover have "Suc (length (erase (session d) (index c))) = length (index c)"
    using unique(2) indexed by (intro length_erase) simp_all
  ultimately have "length (erase sid (sessions c)) = length (erase (session d) (index c))"
    using sizes by simp
  then have "drop_session sid c
      = Inr \<lparr> sessions = erase sid (sessions c), index = erase (session d) (index c) \<rparr>"
    using known indexed unused by (simp add: drop_session_def Let_def)
  then show "\<exists>c'. drop_session sid c = Inr c'
                  \<and> map_of (sessions c') sid = None
                  \<and> map_of (index c') (session d) = None"
    by (simp add: map_of_erase)
  show "session_timeout_reached (session d) False c = drop_session sid c"
    using known indexed unused
    by (simp add: session_timeout_reached_def drop_session_def Let_def)
next
  assume used: "0 < use_count d"
  then show "drop_session sid c = Inr c"
    using known sizes by (simp add: drop_session_def)
  show "session_timeout_reached (session d) False c = Inr c"
    using known indexed used by (simp add: session_timeout_reached_def)
  have "map_of (replace sid v (sessions c)) sid = Some v" for v
    using known by (intro map_of_replace) simp
  then show "\<exists>c'. idle_session (session d) c = Inr c'
                  \<and> map_of (sessions c') sid
                      = Some (d\<lparr> use_count := use_count d - 1,
                                 timer_waiting := (use_count d = 1 \<or> timer_waiting d) \<rparr>)
                  \<and> index c' = index c"
    using known indexed used
    by (auto simp add: idle_session_def Let_def)
qed

theorem drop_session_unused_only_witness:
  "(let in_use = \<lparr> sessions = [(''192.168.210.1:9999/0'',
                      \<lparr> use_count = 1, remove = False, session = 1, timer_waiting = False \<rparr>)],
                   index = [(1, ''192.168.210.1:9999/0'')] \<rparr>;
        idle = \<lparr> sessions = [(''192.168.210.1:9999/0'',
                      \<lparr> use_count = 0, remove = False, session = 1, timer_waiting = True \<rparr>)],
                 index = [(1, ''192.168.210.1:9999/0'')] \<rparr>
    in drop_session ''192.168.210.1:9999/0'' in_use = Inr in_use
       \<and> session_timeout_reached 1 False in_use = Inr in_use
       \<and> idle_session 1 in_use = Inr idle
       \<and> drop_session ''192.168.210.1:9999/0'' idle = Inr \<lparr> sessions = [], index = [] \<rparr>
       \<and> session_timeout_reached 1 False idle = Inr \<lparr> sessions = [], index = [] \<rparr>)"
proof -
  let ?u = "\<lparr> use_count = 1, remove = False, session = 1, timer_waiting = False \<rparr>"
  let ?i = "\<lparr> use_count = 0, remove = False, session = 1, timer_waiting = True \<rparr>"
  let ?cu = "\<lparr> sessions = [(''192.168.210.1:9999/0'', ?u)],
               index = [(1, ''192.168.210.1:9999/0'')] \<rparr>"
  let ?ci = "\<lparr> sessions = [(''192.168.210.1:9999/0'', ?i)],
               index = [(1, ''192.168.210.1:9999/0'')] \<rparr>"
  have u: "0 < use_count ?u" by simp
  have i: "use_count ?i = 0" by simp
  have "drop_session ''192.168.210.1:9999/0'' ?cu = Inr ?cu
      \<and> session_timeout_reached 1 False ?cu = Inr ?cu"
    using u drop_session_unused_only [of ?cu "''192.168.210.1:9999/0''" ?u]
    by simp
  moreover have "session_timeout_reached 1 False ?ci = drop_session ''192.168.210.1:9999/0'' ?ci"
    using i drop_session_unused_only [of ?ci "''192.168.210.1:9999/0''" ?i]
    by simp
  ultimately show ?thesis
    unfolding Let_def
    by (simp add: drop_session_def idle_session_def replace_def erase_def Let_def)
qed

section \<open>Properties of sessions\<close>


lemma add_messages_invariant: "session_invariant (add_messages size_of batch s)"
  by (simp add: session_invariant_def add_messages_def Let_def split: option.splits)

lemma events_invariant: "session_invariant (snd (events s))"
  by (simp add: session_invariant_def events_def)

lemma wait_for_events_invariant: "session_invariant (snd (wait_for_events response s))"
  by (simp add: session_invariant_def wait_for_events_def)

text \<open>
  Claim C1. A session has at most one waiting response (the field holds none or one). If
  \<open>wait_for_events\<close> is called while a prior response is the waiting response, no events
  are returned, exactly one notification is made, which tells the prior response that a
  second connection was detected, and the new response is the waiting response afterwards.
\<close>

theorem wait_for_events_second_connection:
  assumes "session_invariant s" and "waiting_response s = Some prior"
  shows "fst (wait_for_events response s) = []
     \<and> waiting_response (snd (wait_for_events response s)) = Some response
     \<and> notified (snd (wait_for_events response s))
         = notified s @ [Second_Connection_Detected prior]"
  using assms by (simp add: session_invariant_def wait_for_events_def)

theorem wait_for_events_second_connection_witness:
  "(let cfg = \<lparr> max_messages_per_client = 10, max_messages_size_per_client = 10240 \<rparr>;
        waiting_a = snd (wait_for_events 1 (new_session ''sss'' cfg));
        waiting_b = wait_for_events 2 waiting_a
    in session_invariant waiting_a
       \<and> waiting_response waiting_a = Some 1
       \<and> fst waiting_b = []
       \<and> waiting_response (snd waiting_b) = Some 2
       \<and> notified (snd waiting_b) = [Second_Connection_Detected 1])"
proof -
  let ?cfg = "\<lparr> max_messages_per_client = 10, max_messages_size_per_client = 10240 \<rparr>"
  let ?s = "snd (wait_for_events 1 (new_session ''sss'' ?cfg))"
  have a: "session_invariant ?s" by (rule wait_for_events_invariant)
  have b: "waiting_response ?s = Some 1" by (simp add: wait_for_events_def new_session_def)
  have c: "notified ?s = []" by (simp add: wait_for_events_def new_session_def)
  from wait_for_events_second_connection [OF a b, of 2] a b c show ?thesis
    unfolding Let_def by simp
qed

subsection \<open>The event queue\<close>

lemma within_caps_Nil: "within_caps size_of cfg []"
  by (simp add: within_caps_def)

lemma limit_within: "within_caps size_of cfg (limit_queue size_of cfg q)"
  by (induction q) (simp_all add: within_caps_Nil)

lemma limit_suffix: "suffix (limit_queue size_of cfg q) q"
  by (induction q) (auto simp add: suffix_Cons)

lemma limit_longest:
  "suffix r q \<Longrightarrow> within_caps size_of cfg r \<Longrightarrow> suffix r (limit_queue size_of cfg q)"
  by (induction q) (auto simp add: suffix_Cons)

lemma not_within_append:
  "\<not> within_caps size_of cfg q \<Longrightarrow> \<not> within_caps size_of cfg (q @ b)"
  by (auto simp add: within_caps_def)

lemma limit_append:
  "limit_queue size_of cfg (limit_queue size_of cfg q @ b) = limit_queue size_of cfg (q @ b)"
proof (induction q)
  case Nil
  then show ?case by simp
next
  case (Cons a q)
  show ?case
  proof (cases "within_caps size_of cfg (a # q)")
    case True
    then show ?thesis by simp
  next
    case False
    then have "\<not> within_caps size_of cfg ((a # q) @ b)" by (rule not_within_append)
    with False Cons show ?thesis by simp
  qed
qed

lemma limit_id: "within_caps size_of cfg q \<Longrightarrow> limit_queue size_of cfg q = q"
  by (cases q) simp_all

lemma add_messages_idle:
  assumes "waiting_response s = None"
  shows "waiting_response (add_messages size_of b s) = None"
    and "config (add_messages size_of b s) = config s"
    and "queue (add_messages size_of b s) = limit_queue size_of (config s) (queue s @ b)"
  using assms by (simp_all add: add_messages_def Let_def)

lemma fold_add_messages:
  assumes "waiting_response s = None" "within_caps size_of (config s) (queue s)"
  shows "queue (foldl (\<lambda>s e. add_messages size_of [e] s) s es)
           = limit_queue size_of (config s) (queue s @ es)"
  using assms
proof (induction es arbitrary: s)
  case Nil
  then show ?case by (simp add: limit_id)
next
  case (Cons e es)
  let ?s = "add_messages size_of [e] s"
  have w: "waiting_response ?s = None" and c: "config ?s = config s"
    and q: "queue ?s = limit_queue size_of (config s) (queue s @ [e])"
    using Cons.prems(1) by (rule add_messages_idle)+
  have "within_caps size_of (config ?s) (queue ?s)"
    by (simp add: c q limit_within)
  from Cons.IH [OF w this]
  show ?case by (simp add: c q limit_append)
qed

lemma enqueued_queue:
  "queue (foldl (\<lambda>s e. add_messages size_of [e] s) (new_session sid cfg) es)
     = limit_queue size_of cfg es"
  using fold_add_messages [of "new_session sid cfg" size_of es]
  by (simp add: new_session_def within_caps_Nil)

lemma three_updates:
  assumes "size_of (update_event channel d2) + size_of (update_event channel d3) \<le> S"
  shows "fst (events (foldl (\<lambda>s d. on_update size_of channel d s)
            (new_session sid \<lparr> max_messages_per_client = 2, max_messages_size_per_client = S \<rparr>)
            [d1, d2, d3]))
         = [update_event channel d2, update_event channel d3]"
  using assms
  by (simp add: events_def on_update_def add_messages_def new_session_def within_caps_def)

text \<open>
  Claim C2. After an enqueue on any session the queue is within both caps of the session.
  After any sequence of events enqueued on a new session with the caps \<open>K\<close> and \<open>S\<close>, the
  queue holds at most \<open>K\<close> events of summed size at most \<open>S\<close>; the queue is a suffix of
  the enqueued sequence, and every suffix of that sequence that is within both caps is a
  suffix of the queue, so the oldest events are the ones dropped. In particular with
  \<open>K = 2\<close> and room for two events in \<open>S\<close>, the updates with data 1, 2, 3 leave exactly
  the events for 2 and 3, in this order, to be drained.
\<close>

theorem event_queue_caps:
  "within_caps size_of (config s0) (queue (add_messages size_of batch s0)) \<and>
   (let cfg = \<lparr> max_messages_per_client = K, max_messages_size_per_client = S \<rparr>;
       s = foldl (\<lambda>s e. add_messages size_of [e] s) (new_session sid cfg) es
   in length (queue s) \<le> K
      \<and> sum_list (map size_of (queue s)) \<le> S
      \<and> suffix (queue s) es
      \<and> (\<forall>r. suffix r es \<and> within_caps size_of cfg r \<longrightarrow> suffix r (queue s))
      \<and> (K = 2 \<and> size_of (update_event channel d2) + size_of (update_event channel d3) \<le> S
           \<longrightarrow> fst (events (foldl (\<lambda>s d. on_update size_of channel d s)
                               (new_session sid cfg) [d1, d2, d3]))
                 = [update_event channel d2, update_event channel d3]))"
proof -
  let ?cfg = "\<lparr> max_messages_per_client = K, max_messages_size_per_client = S \<rparr>"
  let ?q = "limit_queue size_of ?cfg es"
  have any: "within_caps size_of (config s0) (queue (add_messages size_of batch s0))"
    by (simp add: add_messages_def Let_def limit_within within_caps_Nil split: option.splits)
  have "within_caps size_of ?cfg ?q" by (rule limit_within)
  then have caps: "length ?q \<le> K" "sum_list (map size_of ?q) \<le> S"
    by (simp_all add: within_caps_def)
  have suf: "suffix ?q es" by (rule limit_suffix)
  have longest: "\<forall>r. suffix r es \<and> within_caps size_of ?cfg r \<longrightarrow> suffix r ?q"
    using limit_longest by blast
  have three: "K = 2 \<and> size_of (update_event channel d2) + size_of (update_event channel d3) \<le> S
           \<longrightarrow> fst (events (foldl (\<lambda>s d. on_update size_of channel d s)
                               (new_session sid ?cfg) [d1, d2, d3]))
                 = [update_event channel d2, update_event channel d3]"
    using three_updates by blast
  show ?thesis
    unfolding Let_def enqueued_queue
    using any caps suf longest three by blast
qed

theorem event_queue_caps_witness:
  "suffix [JNumber 2, JNumber 3] [JNumber 1, JNumber 2, JNumber 3]
   \<and> within_caps json_size \<lparr> max_messages_per_client = 2, max_messages_size_per_client = 10240 \<rparr>
         [JNumber 2, JNumber 3]
   \<and> suffix [JNumber 2, JNumber 3]
         (queue (foldl (\<lambda>s e. add_messages json_size [e] s)
            (new_session ''sss''
               \<lparr> max_messages_per_client = 2, max_messages_size_per_client = 10240 \<rparr>)
            [JNumber 1, JNumber 2, JNumber 3]))
   \<and> json_size (update_event ''/a/b'' (JObject [(''data'', JNumber 2)]))
        + json_size (update_event ''/a/b'' (JObject [(''data'', JNumber 3)])) \<le> 10240
   \<and> fst (events (foldl (\<lambda>s d. on_update json_size ''/a/b'' d s)
       (new_session ''sss'' \<lparr> max_messages_per_client = 2, max_messages_size_per_client = 10240 \<rparr>)
       [JObject [(''data'', JNumber 1)], JObject [(''data'', JNumber 2)],
        JObject [(''data'', JNumber 3)]]))
     = [JObject [(''channel'', JString ''/a/b''), (''data'', JNumber 2)],
        JObject [(''channel'', JString ''/a/b''), (''data'', JNumber 3)]]"
proof -
  have suf: "suffix [JNumber 2, JNumber 3] [JNumber 1, JNumber 2, JNumber 3]"
    by (simp add: suffix_Cons)
  have caps: "within_caps json_size
      \<lparr> max_messages_per_client = 2, max_messages_size_per_client = 10240 \<rparr>
      [JNumber 2, JNumber 3]"
    by (simp add: within_caps_def json_size_def)
  have room: "json_size (update_event ''/a/b'' (JObject [(''data'', JNumber 2)]))
        + json_size (update_event ''/a/b'' (JObject [(''data'', JNumber 3)])) \<le> 10240"
    by (simp add: json_size_def update_event_def copy_member_def member_def escape_def)
  from event_queue_caps [where K = 2 and S = 10240 and size_of = json_size and sid = "''sss''"
         and es = "[JNumber 1, JNumber 2, JNumber 3]" and channel = "''/a/b''"
         and ?d1.0 = "JObject [(''data'', JNumber 1)]"
         and ?d2.0 = "JObject [(''data'', JNumber 2)]"
         and ?d3.0 = "JObject [(''data'', JNumber 3)]"
         and ?s0.0 = "new_session ''sss''
                        \<lparr> max_messages_per_client = 2, max_messages_size_per_client = 10240 \<rparr>"
         and batch = "[JNumber 1]"] suf caps room
  show ?thesis
    unfolding Let_def by (simp add: update_event_def copy_member_def member_def)
qed

section \<open>Properties of subscriptions\<close>










end
